theory Spec2Isabelle
  imports Main "HOL-Library.Word"
begin

section \<open>json2xml: the converter of convert.go\<close>

text \<open>
  The package turns a stream of JSON tokens into a stream of XML tokens. The
  whole of it is the method \<^verbatim>\<open>Converter.Token\<close>, its three helpers
  \<^verbatim>\<open>outputType\<close>, \<^verbatim>\<open>outputStart\<close>, \<^verbatim>\<open>outputEnd\<close>, and the
  driving loop \<^verbatim>\<open>Convert\<close>. The definitions below follow convert.go line by
  line; mutation of the receiver is explicit state passing, and a Go result
  \<^verbatim>\<open>(value, error)\<close> is a sum with the error on the left.
\<close>

subsection \<open>Errors\<close>

text \<open>
  The three error values of the package (lines 41 to 45), \<^verbatim>\<open>io.EOF\<close>, and any
  other error value a decoder or an encoder may hand back. \<open>PanicIndex\<close> is not
  a Go error value: it stands for the run-time panic of an index out of range,
  which \<^verbatim>\<open>outputEnd\<close> would raise on an empty slice.
\<close>

datatype error =
    ErrInvalidKey
  | ErrUnknownToken
  | ErrInvalidToken
  | EOF
  | OtherError string
  | PanicIndex

subsection \<open>Type tags\<close>

datatype ttype = typObject | typArray | typBool | typNumber | typString | typNull

fun ttypeNames :: "ttype \<Rightarrow> string" where
  "ttypeNames typObject = ''object''"
| "ttypeNames typArray = ''array''"
| "ttypeNames typBool = ''boolean''"
| "ttypeNames typNumber = ''number''"
| "ttypeNames typString = ''string''"
| "ttypeNames typNull = ''null''"

subsection \<open>JSON tokens and XML tokens\<close>

text \<open>
  A \<^verbatim>\<open>json.Token\<close> is an empty interface. The type switch of lines 135 to 174
  tells apart \<^verbatim>\<open>json.Delim\<close> (a rune), \<^verbatim>\<open>bool\<close>, \<^verbatim>\<open>float64\<close>,
  \<^verbatim>\<open>json.Number\<close> (a string type of its own), \<^verbatim>\<open>string\<close> and \<^verbatim>\<open>nil\<close>;
  \<open>JOther\<close> is a value of any other dynamic type. A \<^verbatim>\<open>float64\<close> is kept as
  its 64 bits.
\<close>

type_synonym float64 = "64 word"

datatype jtoken =
    JDelim char
  | JBool bool
  | JFloat64 float64
  | JNumber string
  | JString string
  | JNil
  | JOther

datatype xml_Name = Name (Space: string) (Local: string)

datatype xml_Attr = Attr xml_Name string

datatype xmltoken =
    StartElement xml_Name "xml_Attr list"
  | EndElement xml_Name
  | CharData string

subsection \<open>The converter\<close>

text \<open>
  The struct of lines 82 to 86. The field \<open>decoder\<close> holds the state of the JSON
  source, of any type \<open>'d\<close>; the method \<^verbatim>\<open>Token\<close> of the interface
  \<^verbatim>\<open>JSONDecoder\<close> is a function from that state to a result and the next
  state. The slice \<open>types\<close> grows at its end, so the top of the stack is its
  last element. The pointer \<open>data\<close> is an optional string.
\<close>

record 'd Converter =
  decoder :: 'd
  types :: "ttype list"
  data :: "string option"

type_synonym 'd JSONDecoder = "'d \<Rightarrow> (error + jtoken) \<times> 'd"

type_synonym 'x XMLEncoder = "'x \<Rightarrow> xmltoken \<Rightarrow> error option \<times> 'x"

text \<open>
  \<^verbatim>\<open>strconv.FormatFloat\<close> belongs to the Go library, not to this package. It
  is a parameter of the model: the value, the format byte, the precision and the
  bit size.
\<close>

type_synonym formatFloat = "float64 \<Rightarrow> char \<Rightarrow> int \<Rightarrow> nat \<Rightarrow> string"

definition NewConverter :: "'d \<Rightarrow> 'd Converter" where
  "NewConverter j = \<lparr>decoder = j, types = [], data = None\<rparr>"

text \<open>Lines 183 to 205.\<close>

definition outputStart :: "ttype \<Rightarrow> string option \<Rightarrow> 'd Converter \<Rightarrow> xmltoken \<times> 'd Converter" where
  "outputStart typ keyName c =
     (let c1 = c\<lparr>types := types c @ [typ]\<rparr>;
          attr = (case keyName of
                    None \<Rightarrow> []
                  | Some k \<Rightarrow> [Attr (Name [] ''name'') k])
      in (StartElement (Name [] (ttypeNames typ)) attr, c1))"

text \<open>Lines 177 to 181.\<close>

definition outputType ::
  "ttype \<Rightarrow> string option \<Rightarrow> string option \<Rightarrow> 'd Converter \<Rightarrow> xmltoken \<times> 'd Converter" where
  "outputType typ dat keyName c = outputStart typ keyName (c\<lparr>data := dat\<rparr>)"

text \<open>
  Lines 207 to 216. Indexing an empty slice with \<^verbatim>\<open>len(c.types)-1\<close> panics.
\<close>

definition outputEnd :: "'d Converter \<Rightarrow> (error + xmltoken) \<times> 'd Converter" where
  "outputEnd c =
     (if types c = [] then (Inl PanicIndex, c)
      else
        let typ = last (types c);
            c1 = c\<lparr>types := butlast (types c)\<rparr>
        in (Inr (EndElement (Name [] (ttypeNames typ))), c1))"

text \<open>
  Lines 135 to 174: the type switch on the token, with the key name of the
  member if there is one.
\<close>

definition tokenSwitch ::
  "formatFloat \<Rightarrow> jtoken \<Rightarrow> string option \<Rightarrow> 'd Converter \<Rightarrow> (error + xmltoken) \<times> 'd Converter" where
  "tokenSwitch FormatFloat token keyName c =
     (case token of
        JDelim r \<Rightarrow>
          if r = CHR ''{'' then
            (let (t, c1) = outputStart typObject keyName c in (Inr t, c1))
          else if r = CHR ''['' then
            (let (t, c1) = outputStart typArray keyName c in (Inr t, c1))
          else if r = CHR ''}'' then
            (if types c = [] \<or> last (types c) \<noteq> typObject then (Inl ErrInvalidToken, c)
             else outputEnd c)
          else if r = CHR '']'' then
            (if types c = [] \<or> last (types c) \<noteq> typArray then (Inl ErrInvalidToken, c)
             else outputEnd c)
          else (Inl ErrUnknownToken, c)
      | JBool b \<Rightarrow>
          if b then
            (let (t, c1) = outputType typBool (Some ''true'') keyName c in (Inr t, c1))
          else
            (let (t, c1) = outputType typBool (Some ''false'') keyName c in (Inr t, c1))
      | JFloat64 f \<Rightarrow>
          (let number = FormatFloat f CHR ''f'' (- 1) 64;
               (t, c1) = outputType typNumber (Some number) keyName c
           in (Inr t, c1))
      | JNumber n \<Rightarrow>
          (let (t, c1) = outputType typNumber (Some n) keyName c in (Inr t, c1))
      | JString s \<Rightarrow>
          (let (t, c1) = outputType typString (Some s) keyName c in (Inr t, c1))
      | JNil \<Rightarrow>
          (let (t, c1) = outputType typNull None keyName c in (Inr t, c1))
      | JOther \<Rightarrow> (Inl ErrUnknownToken, c))"

text \<open>
  Lines 98 to 133, then the switch. A pull from the source advances the
  decoder whether or not it succeeds.
\<close>

definition Token ::
  "formatFloat \<Rightarrow> 'd JSONDecoder \<Rightarrow> 'd Converter \<Rightarrow> (error + xmltoken) \<times> 'd Converter" where
  "Token FormatFloat dec c =
     (case data c of
        Some d \<Rightarrow> (Inr (CharData d), c\<lparr>data := None\<rparr>)
      | None \<Rightarrow>
          if types c \<noteq> [] \<and> last (types c) \<noteq> typObject \<and> last (types c) \<noteq> typArray
          then outputEnd c
          else
            (let (r, d1) = dec (decoder c);
                 c1 = c\<lparr>decoder := d1\<rparr>
             in case r of
                  Inl err \<Rightarrow> (Inl err, c1)
                | Inr token \<Rightarrow>
                    if types c1 \<noteq> [] \<and> last (types c1) = typObject \<and> token \<noteq> JDelim CHR ''}''
                    then
                      (case token of
                         JString tokenStr \<Rightarrow>
                           (let (r2, d2) = dec (decoder c1);
                                c2 = c1\<lparr>decoder := d2\<rparr>
                            in case r2 of
                                 Inl err \<Rightarrow> (Inl err, c2)
                               | Inr token2 \<Rightarrow> tokenSwitch FormatFloat token2 (Some tokenStr) c2)
                       | _ \<Rightarrow> (Inl ErrInvalidKey, c1))
                    else tokenSwitch FormatFloat token None c1))"

text \<open>
  Lines 219 to 238. The loop ends only when \<^verbatim>\<open>Token\<close> or the encoder returns
  an error, so it is a partial function: \<open>None\<close> is a run that never returns.
  The result is the error returned (\<open>None\<close> for \<^verbatim>\<open>nil\<close>), with the final
  converter and the final state of the encoder.
\<close>

partial_function (option) Convert_loop ::
  "formatFloat \<Rightarrow> 'd JSONDecoder \<Rightarrow> 'x XMLEncoder \<Rightarrow> 'd Converter \<Rightarrow> 'x
     \<Rightarrow> (error option \<times> 'd Converter \<times> 'x) option" where
  "Convert_loop FormatFloat dec enc c x =
     (case Token FormatFloat dec c of
        (Inl err, c1) \<Rightarrow>
          if err = EOF then Some (None, c1, x) else Some (Some err, c1, x)
      | (Inr tk, c1) \<Rightarrow>
          (case enc x tk of
             (Some err, x1) \<Rightarrow> Some (Some err, c1, x1)
           | (None, x1) \<Rightarrow> Convert_loop FormatFloat dec enc c1 x1))"

definition Convert ::
  "formatFloat \<Rightarrow> 'd JSONDecoder \<Rightarrow> 'x XMLEncoder \<Rightarrow> 'd \<Rightarrow> 'x
     \<Rightarrow> (error option \<times> 'd Converter \<times> 'x) option" where
  "Convert FormatFloat dec enc j x =
     Convert_loop FormatFloat dec enc \<lparr>decoder = j, types = [], data = None\<rparr> x"

subsection \<open>A source, a sink and a formatter for closed runs\<close>

text \<open>
  A decoder over a slice of tokens: it hands the tokens out in order and signals
  \<^verbatim>\<open>io.EOF\<close> from then on. An encoder that appends every token to a list and
  never fails. A formatter for the closed examples, none of which holds a
  \<^verbatim>\<open>float64\<close> token.
\<close>

fun sliceDecoder :: "jtoken list JSONDecoder" where
  "sliceDecoder [] = (Inl EOF, [])"
| "sliceDecoder (t # ts) = (Inr t, ts)"

definition collect :: "xmltoken list XMLEncoder" where
  "collect out tk = (None, out @ [tk])"

definition plainFormat :: formatFloat where
  "plainFormat f fmt prec bitSize = []"

subsection \<open>Positions of a call\<close>

text \<open>
  \<open>pullsValue dec c keyName token d2\<close>: the call of \<^verbatim>\<open>Token\<close> in state \<open>c\<close>
  reads \<open>token\<close> at a value position and leaves the source in state \<open>d2\<close>.
  Either no object is on top of the stack and \<open>token\<close> is the one token
  pulled, or an object is on top, the first token pulled is the string
  \<open>keyName\<close> and \<open>token\<close> is the second.
\<close>

fun pullsValue :: "'d JSONDecoder \<Rightarrow> 'd Converter \<Rightarrow> string option \<Rightarrow> jtoken \<Rightarrow> 'd \<Rightarrow> bool" where
  "pullsValue dec c None token d2 =
     (data c = None \<and> (if types c = [] then True else last (types c) = typArray)
      \<and> dec (decoder c) = (Inr token, d2))"
| "pullsValue dec c (Some k) token d2 =
     (data c = None \<and> (if types c = [] then False else last (types c) = typObject)
      \<and> fst (dec (decoder c)) = Inr (JString k)
      \<and> dec (snd (dec (decoder c))) = (Inr token, d2))"

text \<open>
  The tokens that start a value: object-open, array-open, a boolean, a number
  in either form, a string, null.
\<close>

fun valueStart :: "jtoken \<Rightarrow> bool" where
  "valueStart (JDelim r) = (if r = CHR ''{'' then True else r = CHR ''['')"
| "valueStart JOther = False"
| "valueStart _ = True"

definition nameAttr :: "string option \<Rightarrow> xml_Attr list" where
  "nameAttr keyName = (case keyName of None \<Rightarrow> [] | Some k \<Rightarrow> [Attr (Name [] ''name'') k])"

text \<open>
  The scalars of the package comment (lines 7 to 9): a boolean, a number in
  either form, a string. \<open>scalarType\<close> is the type tag of such a token and
  \<open>scalarText\<close> its text: \<open>true\<close> or \<open>false\<close>, the number as the formatter
  or the literal gives it, the string itself.
\<close>

fun scalarType :: "jtoken \<Rightarrow> ttype option" where
  "scalarType (JBool b) = Some typBool"
| "scalarType (JFloat64 f) = Some typNumber"
| "scalarType (JNumber n) = Some typNumber"
| "scalarType (JString s) = Some typString"
| "scalarType _ = None"

fun scalarText :: "formatFloat \<Rightarrow> jtoken \<Rightarrow> string" where
  "scalarText F (JBool b) = (if b then ''true'' else ''false'')"
| "scalarText F (JFloat64 f) = F f CHR ''f'' (- 1) 64"
| "scalarText F (JNumber n) = n"
| "scalarText F (JString s) = s"
| "scalarText F _ = []"

subsection \<open>JSON documents, their tokens and their XML\<close>

text \<open>
  A well-formed token sequence is the token sequence of a JSON value, as
  \<^verbatim>\<open>json.Decoder\<close> hands it out: the members of an object are a key string
  followed by the tokens of the value; a number is a \<^verbatim>\<open>float64\<close> or, after
  \<^verbatim>\<open>UseNumber\<close>, a \<^verbatim>\<open>json.Number\<close>.
\<close>

datatype json =
    VObject "(string \<times> json) list"
  | VArray "json list"
  | VBool bool
  | VFloat float64
  | VNumber string
  | VString string
  | VNull

fun tokens :: "json \<Rightarrow> jtoken list" where
  "tokens (VObject kvs) =
     JDelim CHR ''{'' # concat (map (\<lambda>(k, v). JString k # tokens v) kvs) @ [JDelim CHR ''}'']"
| "tokens (VArray vs) = JDelim CHR ''['' # concat (map tokens vs) @ [JDelim CHR '']'']"
| "tokens (VBool b) = [JBool b]"
| "tokens (VFloat f) = [JFloat64 f]"
| "tokens (VNumber n) = [JNumber n]"
| "tokens (VString s) = [JString s]"
| "tokens VNull = [JNil]"

text \<open>
  The XML of a value, after the table of the package comment (lines 3 to 29):
  an element named after the type, the key of a member as the attribute
  \<open>name\<close>, the text of a scalar as character data.
\<close>

fun xmlOf :: "formatFloat \<Rightarrow> string option \<Rightarrow> json \<Rightarrow> xmltoken list" where
  "xmlOf F kn (VObject kvs) =
     StartElement (Name [] ''object'') (nameAttr kn)
       # concat (map (\<lambda>(k, v). xmlOf F (Some k) v) kvs) @ [EndElement (Name [] ''object'')]"
| "xmlOf F kn (VArray vs) =
     StartElement (Name [] ''array'') (nameAttr kn)
       # concat (map (xmlOf F None) vs) @ [EndElement (Name [] ''array'')]"
| "xmlOf F kn (VBool b) =
     [StartElement (Name [] ''boolean'') (nameAttr kn),
      CharData (if b then ''true'' else ''false''),
      EndElement (Name [] ''boolean'')]"
| "xmlOf F kn (VFloat f) =
     [StartElement (Name [] ''number'') (nameAttr kn),
      CharData (F f CHR ''f'' (- 1) 64),
      EndElement (Name [] ''number'')]"
| "xmlOf F kn (VNumber n) =
     [StartElement (Name [] ''number'') (nameAttr kn), CharData n, EndElement (Name [] ''number'')]"
| "xmlOf F kn (VString s) =
     [StartElement (Name [] ''string'') (nameAttr kn), CharData s, EndElement (Name [] ''string'')]"
| "xmlOf F kn VNull =
     [StartElement (Name [] ''null'') (nameAttr kn), EndElement (Name [] ''null'')]"

text \<open>
  A value at its position in the stream: a member of an object comes after its
  key. \<open>position st keyName\<close> says that the stack \<open>st\<close> fits: a keyed value sits
  in an object, an unkeyed one at the top level or in an array.
\<close>

fun keyed :: "string option \<Rightarrow> jtoken list \<Rightarrow> jtoken list" where
  "keyed None ts = ts"
| "keyed (Some k) ts = JString k # ts"

fun position :: "ttype list \<Rightarrow> string option \<Rightarrow> bool" where
  "position st None = (if st = [] then True else last st = typArray)"
| "position st (Some k) = (if st = [] then False else last st = typObject)"

text \<open>
  Counting the start and end elements of an output, and checking its nesting:
  \<open>lifo open ts\<close> reads \<open>ts\<close> with the names of the unmatched start elements in
  \<open>open\<close>, the most recent first, and holds when every end element carries
  the name on top.
\<close>

fun countStart :: "xmltoken list \<Rightarrow> nat" where
  "countStart [] = 0"
| "countStart (StartElement n a # ts) = Suc (countStart ts)"
| "countStart (t # ts) = countStart ts"

fun countEnd :: "xmltoken list \<Rightarrow> nat" where
  "countEnd [] = 0"
| "countEnd (EndElement n # ts) = Suc (countEnd ts)"
| "countEnd (t # ts) = countEnd ts"

fun lifo :: "xml_Name list \<Rightarrow> xmltoken list \<Rightarrow> bool" where
  "lifo opened [] = True"
| "lifo opened (StartElement n a # ts) = lifo (n # opened) ts"
| "lifo opened (CharData s # ts) = lifo opened ts"
| "lifo [] (EndElement n # ts) = False"
| "lifo (m # opened) (EndElement n # ts) = (if m = n then lifo opened ts else False)"

section \<open>Single calls of Token\<close>

text \<open>
  What one call does in each of its branches. An error leaves the converter as
  it was, apart from the source, which has moved on.
\<close>

lemma outputEnd_error: "outputEnd c = (Inl e, c1) \<Longrightarrow> c1 = c"
  by (simp add: outputEnd_def Let_def split: if_splits)

lemma tokenSwitch_error: "tokenSwitch F token keyName c = (Inl e, c1) \<Longrightarrow> c1 = c"
  by (cases token)
     (auto simp: tokenSwitch_def outputType_def outputStart_def Let_def
           dest: outputEnd_error split: if_splits)

lemma Token_pending: "data c = Some d \<Longrightarrow> Token F dec c = (Inr (CharData d), c\<lparr>data := None\<rparr>)"
  by (simp add: Token_def)

lemma Token_scalar_end:
  "data c = None \<Longrightarrow> types c \<noteq> [] \<Longrightarrow> last (types c) \<noteq> typObject \<Longrightarrow> last (types c) \<noteq> typArray \<Longrightarrow>
   Token F dec c = outputEnd c"
  by (simp add: Token_def)

lemma Token_pull_error:
  "data c = None \<Longrightarrow> types c = [] \<or> last (types c) = typObject \<or> last (types c) = typArray \<Longrightarrow>
   dec (decoder c) = (Inl e, d1) \<Longrightarrow> Token F dec c = (Inl e, c\<lparr>decoder := d1\<rparr>)"
  by (auto simp: Token_def)

lemma Token_key_pull_error:
  "data c = None \<Longrightarrow> types c \<noteq> [] \<Longrightarrow> last (types c) = typObject \<Longrightarrow>
   dec (decoder c) = (Inr (JString k), d0) \<Longrightarrow> dec d0 = (Inl e, d1) \<Longrightarrow>
   Token F dec c = (Inl e, c\<lparr>decoder := d1\<rparr>)"
  by (simp add: Token_def)

lemma Token_pullsValue:
  "pullsValue dec c keyName token d2 \<Longrightarrow>
   Token F dec c = tokenSwitch F token keyName (c\<lparr>decoder := d2\<rparr>)"
proof (cases keyName)
  case None
  assume "pullsValue dec c keyName token d2"
  with None show ?thesis by (auto simp: Token_def split: if_splits)
next
  case (Some k)
  assume "pullsValue dec c keyName token d2"
  with Some show ?thesis
    by (cases "dec (decoder c)") (auto simp: Token_def split: if_splits)
qed

lemma Token_close_after_key:
  "data c = None \<Longrightarrow> types c \<noteq> [] \<Longrightarrow> last (types c) = typObject \<Longrightarrow>
   dec (decoder c) = (Inr (JString k), d1) \<Longrightarrow> dec d1 = (Inr (JDelim CHR ''}''), d2) \<Longrightarrow>
   Token F dec c
     = (Inr (EndElement (Name [] ''object'')), c\<lparr>decoder := d2, types := butlast (types c)\<rparr>)"
  by (simp add: Token_def tokenSwitch_def outputEnd_def)

lemma Token_error_cases:
  assumes "Token F dec c = (Inl e, c1)"
  shows "types c1 = types c \<and> data c1 = data c"
proof (cases "data c")
  case (Some d)
  with assms show ?thesis by (simp add: Token_def)
next
  case None
  show ?thesis
  proof (cases "types c \<noteq> [] \<and> last (types c) \<noteq> typObject \<and> last (types c) \<noteq> typArray")
    case True
    with None assms have "outputEnd c = (Inl e, c1)" by (simp add: Token_def)
    from outputEnd_error [OF this] show ?thesis by simp
  next
    case False
    obtain r d1 where r: "dec (decoder c) = (r, d1)" by (cases "dec (decoder c)")
    show ?thesis
    proof (cases r)
      case (Inl err)
      with None False r assms show ?thesis by (auto simp: Token_def)
    next
      case (Inr token)
      show ?thesis
      proof (cases "types c \<noteq> [] \<and> last (types c) = typObject \<and> token \<noteq> JDelim CHR ''}''")
        case notclose: True
        obtain r2 d2 where r2: "dec d1 = (r2, d2)" by (cases "dec d1")
        show ?thesis
        proof (cases "\<exists>s. token = JString s")
          case True
          then obtain s where s: "token = JString s" ..
          show ?thesis
          proof (cases r2)
            case (Inl err)
            with None False r Inr notclose r2 s assms show ?thesis by (auto simp: Token_def)
          next
            case inr2: (Inr token2)
            with None False r Inr notclose r2 s assms
            have "tokenSwitch F token2 (Some s) (c\<lparr>decoder := d2\<rparr>) = (Inl e, c1)"
              by (auto simp: Token_def)
            from tokenSwitch_error [OF this] show ?thesis by simp
          qed
        next
          case nostr: False
          with None False r Inr notclose assms have "c1 = c\<lparr>decoder := d1\<rparr>"
            by (cases token) (auto simp: Token_def)
          then show ?thesis by simp
        qed
      next
        case isclose: False
        with None False r Inr assms
        have "tokenSwitch F token None (c\<lparr>decoder := d1\<rparr>) = (Inl e, c1)"
          by (auto simp: Token_def)
        from tokenSwitch_error [OF this] show ?thesis by simp
      qed
    qed
  qed
qed

text \<open>
  Both calls of \<^verbatim>\<open>outputEnd\<close> stand behind a test that the stack is not
  empty: the index of line 208 is never out of range.
\<close>

lemma tokenSwitch_no_panic: "fst (tokenSwitch F token keyName c) \<noteq> Inl PanicIndex"
  by (cases token)
     (auto simp: tokenSwitch_def outputType_def outputStart_def outputEnd_def Let_def)

lemma Token_never_panics:
  assumes "\<And>d. fst (dec d) \<noteq> Inl PanicIndex"
  shows "fst (Token F dec c) \<noteq> Inl PanicIndex"
proof (cases "data c")
  case (Some d)
  then show ?thesis by (simp add: Token_def)
next
  case None
  show ?thesis
  proof (cases "types c \<noteq> [] \<and> last (types c) \<noteq> typObject \<and> last (types c) \<noteq> typArray")
    case True
    with None show ?thesis by (simp add: Token_def outputEnd_def)
  next
    case False
    obtain r d1 where r: "dec (decoder c) = (r, d1)" by (cases "dec (decoder c)")
    obtain r2 d2 where r2: "dec d1 = (r2, d2)" by (cases "dec d1")
    from assms [of "decoder c"] r have r_ok: "r \<noteq> Inl PanicIndex" by simp
    from assms [of d1] r2 have r2_ok: "r2 \<noteq> Inl PanicIndex" by simp
    from False have nosc: "\<not> (types c \<noteq> [] \<and> last (types c) \<noteq> typObject \<and> last (types c) \<noteq> typArray)" .
    show ?thesis
    proof (cases r)
      case (Inl err)
      with None nosc r r_ok show ?thesis by (auto simp: Token_def)
    next
      case (Inr token)
      show ?thesis
      proof (cases "types c \<noteq> [] \<and> last (types c) = typObject \<and> token \<noteq> JDelim CHR ''}''")
        case True
        with None nosc r Inr r2 r2_ok tokenSwitch_no_panic [of F _ _ "c\<lparr>decoder := d2\<rparr>"]
        show ?thesis
          by (cases token; cases r2) (auto simp: Token_def)
      next
        case False
        with None nosc r Inr tokenSwitch_no_panic [of F token None "c\<lparr>decoder := d1\<rparr>"]
        show ?thesis by (auto simp: Token_def)
      qed
    qed
  qed
qed

text \<open>
  A start element comes out of the switch, with the key name of the call.
\<close>

lemma outputEnd_not_start: "outputEnd c \<noteq> (Inr (StartElement n a), c1)"
  by (simp add: outputEnd_def Let_def)

lemma tokenSwitch_start_attr:
  assumes "tokenSwitch F token keyName c = (Inr (StartElement n a), c1)"
  shows "a = nameAttr keyName"
  using assms
  by (cases token)
     (auto simp: tokenSwitch_def outputType_def outputStart_def outputEnd_def Let_def nameAttr_def
           split: if_splits)

lemma Token_start_cases:
  assumes "Token F dec c = (Inr (StartElement n a), c1)"
  shows "data c = None \<and>
    (if types c \<noteq> [] \<and> last (types c) = typObject
     then \<exists>k d1 token d2. dec (decoder c) = (Inr (JString k), d1) \<and> dec d1 = (Inr token, d2)
            \<and> tokenSwitch F token (Some k) (c\<lparr>decoder := d2\<rparr>) = (Inr (StartElement n a), c1)
     else \<exists>token d1. dec (decoder c) = (Inr token, d1)
            \<and> tokenSwitch F token None (c\<lparr>decoder := d1\<rparr>) = (Inr (StartElement n a), c1))"
proof (cases "data c")
  case (Some d)
  with assms show ?thesis by (simp add: Token_def)
next
  case None
  show ?thesis
  proof (cases "types c \<noteq> [] \<and> last (types c) \<noteq> typObject \<and> last (types c) \<noteq> typArray")
    case True
    with None assms have "outputEnd c = (Inr (StartElement n a), c1)" by (simp add: Token_def)
    with outputEnd_not_start show ?thesis by blast
  next
    case False
    obtain r d1 where r: "dec (decoder c) = (r, d1)" by (cases "dec (decoder c)")
    obtain r2 d2 where r2: "dec d1 = (r2, d2)" by (cases "dec d1")
    show ?thesis
    proof (cases r)
      case (Inl err)
      with None False r assms show ?thesis by (auto simp: Token_def)
    next
      case (Inr token)
      show ?thesis
      proof (cases "types c \<noteq> [] \<and> last (types c) = typObject")
        case obj: True
        show ?thesis
        proof (cases "token = JDelim CHR ''}''")
          case True
          with None False r Inr obj assms show ?thesis
            by (auto simp: Token_def tokenSwitch_def outputEnd_def Let_def)
        next
          case nc: False
          with None False r Inr obj r2 assms show ?thesis
            by (cases token; cases r2) (auto simp: Token_def)
        qed
      next
        case noobj: False
        with None False r Inr assms show ?thesis by (auto simp: Token_def)
      qed
    qed
  qed
qed

text \<open>
  The switch on a scalar token, and the call behind every start element.
\<close>

lemma tokenSwitch_scalar:
  assumes "scalarType token = Some typ"
  shows "tokenSwitch F token keyName c
           = (Inr (StartElement (Name [] (ttypeNames typ)) (nameAttr keyName)),
              c\<lparr>types := types c @ [typ], data := Some (scalarText F token)\<rparr>)"
  using assms
  by (cases token) (auto simp: tokenSwitch_def outputType_def outputStart_def nameAttr_def)

lemma tokenSwitch_start_text:
  assumes "tokenSwitch F token keyName c = (Inr (StartElement n a), c1)"
    and "Local n = ''boolean'' \<or> Local n = ''number'' \<or> Local n = ''string''"
  shows "\<exists>typ. scalarType token = Some typ"
  using assms
  by (cases token)
     (auto simp: tokenSwitch_def outputType_def outputStart_def outputEnd_def Let_def
           split: if_splits)

lemma Token_start_pulls:
  assumes "Token F dec c = (Inr (StartElement n a), c1)"
  shows "\<exists>keyName token d2. pullsValue dec c keyName token d2
           \<and> tokenSwitch F token keyName (c\<lparr>decoder := d2\<rparr>) = (Inr (StartElement n a), c1)"
proof -
  from Token_start_cases [OF assms] have d: "data c = None" by simp
  show ?thesis
  proof (cases "types c \<noteq> [] \<and> last (types c) = typObject")
    case True
    with Token_start_cases [OF assms]
    obtain k d1 token d2 where k: "dec (decoder c) = (Inr (JString k), d1)"
      and t: "dec d1 = (Inr token, d2)"
      and sw: "tokenSwitch F token (Some k) (c\<lparr>decoder := d2\<rparr>) = (Inr (StartElement n a), c1)"
      by auto
    from d True k t have "pullsValue dec c (Some k) token d2" by simp
    with sw show ?thesis by blast
  next
    case False
    with Token_start_cases [OF assms]
    obtain token d1 where t: "dec (decoder c) = (Inr token, d1)"
      and sw: "tokenSwitch F token None (c\<lparr>decoder := d1\<rparr>) = (Inr (StartElement n a), c1)"
      by auto
    have "types c = [] \<or> last (types c) = typArray"
    proof (rule ccontr)
      assume "\<not> (types c = [] \<or> last (types c) = typArray)"
      with False d have "Token F dec c = outputEnd c" by (simp add: Token_scalar_end)
      with assms outputEnd_not_start show False by metis
    qed
    with d t have "pullsValue dec c None token d1" by auto
    with sw show ?thesis by blast
  qed
qed

subsection \<open>Calls on explicit states\<close>

lemma switch_start:
  "tokenSwitch F (JBool b) kn \<lparr>decoder = d, types = st, data = None\<rparr>
     = (Inr (StartElement (Name [] ''boolean'') (nameAttr kn)),
        \<lparr>decoder = d, types = st @ [typBool], data = Some (if b then ''true'' else ''false'')\<rparr>)"
  "tokenSwitch F (JFloat64 f) kn \<lparr>decoder = d, types = st, data = None\<rparr>
     = (Inr (StartElement (Name [] ''number'') (nameAttr kn)),
        \<lparr>decoder = d, types = st @ [typNumber], data = Some (F f CHR ''f'' (- 1) 64)\<rparr>)"
  "tokenSwitch F (JNumber n) kn \<lparr>decoder = d, types = st, data = None\<rparr>
     = (Inr (StartElement (Name [] ''number'') (nameAttr kn)),
        \<lparr>decoder = d, types = st @ [typNumber], data = Some n\<rparr>)"
  "tokenSwitch F (JString s) kn \<lparr>decoder = d, types = st, data = None\<rparr>
     = (Inr (StartElement (Name [] ''string'') (nameAttr kn)),
        \<lparr>decoder = d, types = st @ [typString], data = Some s\<rparr>)"
  "tokenSwitch F JNil kn \<lparr>decoder = d, types = st, data = None\<rparr>
     = (Inr (StartElement (Name [] ''null'') (nameAttr kn)),
        \<lparr>decoder = d, types = st @ [typNull], data = None\<rparr>)"
  "tokenSwitch F (JDelim CHR ''{'') kn \<lparr>decoder = d, types = st, data = None\<rparr>
     = (Inr (StartElement (Name [] ''object'') (nameAttr kn)),
        \<lparr>decoder = d, types = st @ [typObject], data = None\<rparr>)"
  "tokenSwitch F (JDelim CHR ''['') kn \<lparr>decoder = d, types = st, data = None\<rparr>
     = (Inr (StartElement (Name [] ''array'') (nameAttr kn)),
        \<lparr>decoder = d, types = st @ [typArray], data = None\<rparr>)"
  by (simp_all add: tokenSwitch_def outputType_def outputStart_def nameAttr_def)

lemma Token_value:
  "position st kn \<Longrightarrow>
   Token F sliceDecoder \<lparr>decoder = keyed kn (t # rest), types = st, data = None\<rparr>
     = tokenSwitch F t kn \<lparr>decoder = rest, types = st, data = None\<rparr>"
  by (cases kn) (auto simp: Token_def split: if_splits)

lemma Token_data:
  "Token F dec \<lparr>decoder = d, types = st, data = Some s\<rparr>
     = (Inr (CharData s), \<lparr>decoder = d, types = st, data = None\<rparr>)"
  by (simp add: Token_def)

lemma Token_end:
  "typ \<noteq> typObject \<Longrightarrow> typ \<noteq> typArray \<Longrightarrow>
   Token F dec \<lparr>decoder = d, types = st @ [typ], data = None\<rparr>
     = (Inr (EndElement (Name [] (ttypeNames typ))), \<lparr>decoder = d, types = st, data = None\<rparr>)"
  by (simp add: Token_def outputEnd_def)

lemma Token_close_object:
  "Token F sliceDecoder \<lparr>decoder = JDelim CHR ''}'' # rest, types = st @ [typObject], data = None\<rparr>
     = (Inr (EndElement (Name [] ''object'')), \<lparr>decoder = rest, types = st, data = None\<rparr>)"
  by (simp add: Token_def tokenSwitch_def outputEnd_def)

lemma Token_close_array:
  "Token F sliceDecoder \<lparr>decoder = JDelim CHR '']'' # rest, types = st @ [typArray], data = None\<rparr>
     = (Inr (EndElement (Name [] ''array'')), \<lparr>decoder = rest, types = st, data = None\<rparr>)"
  by (simp add: Token_def tokenSwitch_def outputEnd_def)

lemma Token_open_object:
  "Token F sliceDecoder \<lparr>decoder = JDelim CHR ''{'' # rest, types = [], data = None\<rparr>
     = (Inr (StartElement (Name [] ''object'') []), \<lparr>decoder = rest, types = [typObject], data = None\<rparr>)"
  using Token_value [of "[]" None F "JDelim CHR ''{''" rest]
  by (simp add: switch_start nameAttr_def)

section \<open>The loop of Convert\<close>

lemma loop_returns:
  "Token F dec c = (Inl e, c1) \<Longrightarrow>
   Convert_loop F dec enc c x = Some (if e = EOF then None else Some e, c1, x)"
  by (subst Convert_loop.simps) simp

lemma step_collect:
  "Token F sliceDecoder c = (Inr tk, c1) \<Longrightarrow>
   Convert_loop F sliceDecoder collect c out = Convert_loop F sliceDecoder collect c1 (out @ [tk])"
  by (subst Convert_loop.simps) (simp add: collect_def)

subsection \<open>Whole documents\<close>

text \<open>
  The loop carries the tokens of a value, at its position, into the XML of the
  value, and comes back to the stack it started from.
\<close>

lemma elements_run:
  assumes "\<And>v rest out. v \<in> set vs \<Longrightarrow>
     Convert_loop F sliceDecoder collect
         \<lparr>decoder = tokens v @ rest, types = st @ [typArray], data = None\<rparr> out
       = Convert_loop F sliceDecoder collect
           \<lparr>decoder = rest, types = st @ [typArray], data = None\<rparr> (out @ xmlOf F None v)"
  shows "Convert_loop F sliceDecoder collect
         \<lparr>decoder = concat (map tokens vs) @ rest, types = st @ [typArray], data = None\<rparr> out
       = Convert_loop F sliceDecoder collect
           \<lparr>decoder = rest, types = st @ [typArray], data = None\<rparr>
           (out @ concat (map (xmlOf F None) vs))"
  using assms by (induction vs arbitrary: out) simp_all

lemma members_run:
  assumes "\<And>k v rest out. (k, v) \<in> set kvs \<Longrightarrow>
     Convert_loop F sliceDecoder collect
         \<lparr>decoder = JString k # tokens v @ rest, types = st @ [typObject], data = None\<rparr> out
       = Convert_loop F sliceDecoder collect
           \<lparr>decoder = rest, types = st @ [typObject], data = None\<rparr> (out @ xmlOf F (Some k) v)"
  shows "Convert_loop F sliceDecoder collect
         \<lparr>decoder = concat (map (\<lambda>(k, v). JString k # tokens v) kvs) @ rest,
            types = st @ [typObject], data = None\<rparr> out
       = Convert_loop F sliceDecoder collect
           \<lparr>decoder = rest, types = st @ [typObject], data = None\<rparr>
           (out @ concat (map (\<lambda>(k, v). xmlOf F (Some k) v) kvs))"
  using assms by (induction kvs arbitrary: out) (simp_all split: prod.splits)

lemma scalar_run:
  assumes "position st kn" and "typ \<noteq> typObject" and "typ \<noteq> typArray"
    and "tokenSwitch F t kn \<lparr>decoder = rest, types = st, data = None\<rparr>
          = (Inr tk, \<lparr>decoder = rest, types = st @ [typ], data = Some s\<rparr>)"
  shows "Convert_loop F sliceDecoder collect
           \<lparr>decoder = keyed kn (t # rest), types = st, data = None\<rparr> out
       = Convert_loop F sliceDecoder collect \<lparr>decoder = rest, types = st, data = None\<rparr>
           (out @ [tk, CharData s, EndElement (Name [] (ttypeNames typ))])"
proof -
  have "Convert_loop F sliceDecoder collect
           \<lparr>decoder = keyed kn (t # rest), types = st, data = None\<rparr> out
      = Convert_loop F sliceDecoder collect
           \<lparr>decoder = rest, types = st @ [typ], data = Some s\<rparr> (out @ [tk])"
    by (rule step_collect) (simp add: Token_value [OF assms(1)] assms(4))
  also have "\<dots> = Convert_loop F sliceDecoder collect
           \<lparr>decoder = rest, types = st @ [typ], data = None\<rparr> ((out @ [tk]) @ [CharData s])"
    by (rule step_collect) (simp add: Token_data)
  also have "\<dots> = Convert_loop F sliceDecoder collect \<lparr>decoder = rest, types = st, data = None\<rparr>
       (((out @ [tk]) @ [CharData s]) @ [EndElement (Name [] (ttypeNames typ))])"
    by (rule step_collect) (simp add: Token_end assms)
  finally show ?thesis by simp
qed

lemma value_run:
  "position st kn \<Longrightarrow>
   Convert_loop F sliceDecoder collect
       \<lparr>decoder = keyed kn (tokens v @ rest), types = st, data = None\<rparr> out
     = Convert_loop F sliceDecoder collect
         \<lparr>decoder = rest, types = st, data = None\<rparr> (out @ xmlOf F kn v)"
proof (induction F kn v arbitrary: st rest out rule: xmlOf.induct)
  case (1 F kn kvs)
  let ?start = "StartElement (Name [] ''object'') (nameAttr kn)"
  let ?inner = "concat (map (\<lambda>(k, v). xmlOf F (Some k) v) kvs)"
  have "Convert_loop F sliceDecoder collect
          \<lparr>decoder = keyed kn (tokens (VObject kvs) @ rest), types = st, data = None\<rparr> out
      = Convert_loop F sliceDecoder collect
          \<lparr>decoder = concat (map (\<lambda>(k, v). JString k # tokens v) kvs) @ JDelim CHR ''}'' # rest,
             types = st @ [typObject], data = None\<rparr> (out @ [?start])"
    by (rule step_collect) (simp add: Token_value [OF "1.prems"] switch_start)
  also have "\<dots> = Convert_loop F sliceDecoder collect
          \<lparr>decoder = JDelim CHR ''}'' # rest, types = st @ [typObject], data = None\<rparr>
          ((out @ [?start]) @ ?inner)"
  proof (rule members_run)
    fix k v rest' out'
    assume kv: "(k, v) \<in> set kvs"
    have "position (st @ [typObject]) (Some k)" by simp
    from "1.IH" [OF kv refl this, of rest' out']
    show "Convert_loop F sliceDecoder collect
            \<lparr>decoder = JString k # tokens v @ rest', types = st @ [typObject], data = None\<rparr> out'
       = Convert_loop F sliceDecoder collect
            \<lparr>decoder = rest', types = st @ [typObject], data = None\<rparr> (out' @ xmlOf F (Some k) v)"
      by simp
  qed
  also have "\<dots> = Convert_loop F sliceDecoder collect \<lparr>decoder = rest, types = st, data = None\<rparr>
          (((out @ [?start]) @ ?inner) @ [EndElement (Name [] ''object'')])"
    by (rule step_collect) (simp add: Token_close_object)
  finally show ?case by simp
next
  case (2 F kn vs)
  let ?start = "StartElement (Name [] ''array'') (nameAttr kn)"
  let ?inner = "concat (map (xmlOf F None) vs)"
  have "Convert_loop F sliceDecoder collect
          \<lparr>decoder = keyed kn (tokens (VArray vs) @ rest), types = st, data = None\<rparr> out
      = Convert_loop F sliceDecoder collect
          \<lparr>decoder = concat (map tokens vs) @ JDelim CHR '']'' # rest,
             types = st @ [typArray], data = None\<rparr> (out @ [?start])"
    by (rule step_collect) (simp add: Token_value [OF "2.prems"] switch_start)
  also have "\<dots> = Convert_loop F sliceDecoder collect
          \<lparr>decoder = JDelim CHR '']'' # rest, types = st @ [typArray], data = None\<rparr>
          ((out @ [?start]) @ ?inner)"
  proof (rule elements_run)
    fix v rest' out'
    assume v: "v \<in> set vs"
    have "position (st @ [typArray]) None" by simp
    from "2.IH" [OF v this, of rest' out']
    show "Convert_loop F sliceDecoder collect
            \<lparr>decoder = tokens v @ rest', types = st @ [typArray], data = None\<rparr> out'
       = Convert_loop F sliceDecoder collect
            \<lparr>decoder = rest', types = st @ [typArray], data = None\<rparr> (out' @ xmlOf F None v)"
      by simp
  qed
  also have "\<dots> = Convert_loop F sliceDecoder collect \<lparr>decoder = rest, types = st, data = None\<rparr>
          (((out @ [?start]) @ ?inner) @ [EndElement (Name [] ''array'')])"
    by (rule step_collect) (simp add: Token_close_array)
  finally show ?case by simp
next
  case (3 F kn b)
  from scalar_run [OF "3.prems", of typBool F "JBool b" rest, OF _ _ switch_start(1)]
  show ?case by simp
next
  case (4 F kn f)
  from scalar_run [OF "4.prems", of typNumber F "JFloat64 f" rest, OF _ _ switch_start(2)]
  show ?case by simp
next
  case (5 F kn n)
  from scalar_run [OF "5.prems", of typNumber F "JNumber n" rest, OF _ _ switch_start(3)]
  show ?case by simp
next
  case (6 F kn s)
  from scalar_run [OF "6.prems", of typString F "JString s" rest, OF _ _ switch_start(4)]
  show ?case by simp
next
  case (7 F kn)
  have "Convert_loop F sliceDecoder collect
          \<lparr>decoder = keyed kn (tokens VNull @ rest), types = st, data = None\<rparr> out
      = Convert_loop F sliceDecoder collect
          \<lparr>decoder = rest, types = st @ [typNull], data = None\<rparr>
          (out @ [StartElement (Name [] ''null'') (nameAttr kn)])"
    by (rule step_collect) (simp add: Token_value [OF "7.prems"] switch_start)
  also have "\<dots> = Convert_loop F sliceDecoder collect \<lparr>decoder = rest, types = st, data = None\<rparr>
          ((out @ [StartElement (Name [] ''null'') (nameAttr kn)]) @ [EndElement (Name [] ''null'')])"
    by (rule step_collect) (simp add: Token_end)
  finally show ?case by simp
qed

lemma documents_run:
  "Convert_loop F sliceDecoder collect
       \<lparr>decoder = concat (map tokens vs) @ rest, types = [], data = None\<rparr> out
     = Convert_loop F sliceDecoder collect
         \<lparr>decoder = rest, types = [], data = None\<rparr> (out @ concat (map (xmlOf F None) vs))"
proof (induction vs arbitrary: out)
  case Nil
  show ?case by simp
next
  case (Cons v vs)
  have "position [] None" by simp
  from value_run [OF this, of F v "concat (map tokens vs) @ rest" out] Cons.IH
  show ?case by simp
qed

lemma Convert_documents:
  "Convert F sliceDecoder collect (concat (map tokens vs)) []
     = Some (None, \<lparr>decoder = [], types = [], data = None\<rparr>, concat (map (xmlOf F None) vs))"
proof -
  have eof: "Token F sliceDecoder \<lparr>decoder = [], types = [], data = None\<rparr>
     = (Inl EOF, \<lparr>decoder = [], types = [], data = None\<rparr>)"
    by (simp add: Token_def)
  from documents_run [of F vs "[]" "[]"] loop_returns [OF eof]
  show ?thesis by (simp add: Convert_def)
qed

subsection \<open>The XML of a document is balanced\<close>

lemma countStart_append: "countStart (xs @ ys) = countStart xs + countStart ys"
  by (induction xs rule: countStart.induct) simp_all

lemma countEnd_append: "countEnd (xs @ ys) = countEnd xs + countEnd ys"
  by (induction xs rule: countEnd.induct) simp_all

lemma count_concat:
  assumes "\<And>x. x \<in> set xs \<Longrightarrow> countStart (f x) = countEnd (f x)"
  shows "countStart (concat (map f xs)) = countEnd (concat (map f xs))"
  using assms by (induction xs) (simp_all add: countStart_append countEnd_append)

lemma count_xmlOf: "countStart (xmlOf F kn v) = countEnd (xmlOf F kn v)"
proof (induction F kn v rule: xmlOf.induct)
  case (1 F kn kvs)
  have "countStart (concat (map (\<lambda>(k, v). xmlOf F (Some k) v) kvs))
      = countEnd (concat (map (\<lambda>(k, v). xmlOf F (Some k) v) kvs))"
    by (rule count_concat) (auto simp: "1.IH")
  then show ?case by (simp add: countStart_append countEnd_append)
next
  case (2 F kn vs)
  have "countStart (concat (map (xmlOf F None) vs)) = countEnd (concat (map (xmlOf F None) vs))"
    by (rule count_concat) (simp add: "2.IH")
  then show ?case by (simp add: countStart_append countEnd_append)
qed simp_all

lemma lifo_concat:
  assumes "\<And>x opened rest. x \<in> set xs \<Longrightarrow> lifo opened (f x @ rest) = lifo opened rest"
  shows "lifo opened (concat (map f xs) @ rest) = lifo opened rest"
  using assms by (induction xs) simp_all

lemma lifo_xmlOf: "lifo opened (xmlOf F kn v @ rest) = lifo opened rest"
proof (induction F kn v arbitrary: opened rest rule: xmlOf.induct)
  case (1 F kn kvs)
  have "lifo (Name [] ''object'' # opened)
          (concat (map (\<lambda>(k, v). xmlOf F (Some k) v) kvs) @ EndElement (Name [] ''object'') # rest)
      = lifo (Name [] ''object'' # opened) (EndElement (Name [] ''object'') # rest)"
    by (rule lifo_concat) (auto simp: "1.IH")
  then show ?case by simp
next
  case (2 F kn vs)
  have "lifo (Name [] ''array'' # opened)
          (concat (map (xmlOf F None) vs) @ EndElement (Name [] ''array'') # rest)
      = lifo (Name [] ''array'' # opened) (EndElement (Name [] ''array'') # rest)"
    by (rule lifo_concat) (simp add: "2.IH")
  then show ?case by simp
qed simp_all

text \<open>
  The three calls for a number at a value position: the start element
  \<open>number\<close>, the text, the end element. For a \<^verbatim>\<open>json.Number\<close> the text is
  the literal itself, unchanged. For a \<^verbatim>\<open>float64\<close> it is what
  \<^verbatim>\<open>strconv.FormatFloat\<close> returns for the format \<open>f\<close>, the precision \<open>-1\<close>
  and the bit size 64; what digits the library writes for a double is outside
  this development.
\<close>

lemma Token_number_calls:
  assumes "pullsValue dec c keyName token d2"
    and "token = JNumber s \<or> (\<exists>f. token = JFloat64 f \<and> s = F f CHR ''f'' (- 1) 64)"
  shows "Token F dec c
           = (Inr (StartElement (Name [] ''number'') (nameAttr keyName)),
              c\<lparr>decoder := d2, types := types c @ [typNumber], data := Some s\<rparr>)
       \<and> Token F dec (c\<lparr>decoder := d2, types := types c @ [typNumber], data := Some s\<rparr>)
           = (Inr (CharData s), c\<lparr>decoder := d2, types := types c @ [typNumber]\<rparr>)
       \<and> Token F dec (c\<lparr>decoder := d2, types := types c @ [typNumber]\<rparr>)
           = (Inr (EndElement (Name [] ''number'')), c\<lparr>decoder := d2\<rparr>)"
proof -
  from assms(1) have d: "data c = None" by (cases keyName) simp_all
  have sw: "tokenSwitch F token keyName (c\<lparr>decoder := d2\<rparr>)
           = (Inr (StartElement (Name [] ''number'') (nameAttr keyName)),
              c\<lparr>decoder := d2, types := types c @ [typNumber], data := Some s\<rparr>)"
    using assms(2) by (auto simp: tokenSwitch_def outputType_def outputStart_def nameAttr_def)
  have 1: "Token F dec c
           = (Inr (StartElement (Name [] ''number'') (nameAttr keyName)),
              c\<lparr>decoder := d2, types := types c @ [typNumber], data := Some s\<rparr>)"
    using Token_pullsValue [OF assms(1)] sw by simp
  have 2: "Token F dec (c\<lparr>decoder := d2, types := types c @ [typNumber], data := Some s\<rparr>)
           = (Inr (CharData s), c\<lparr>decoder := d2, types := types c @ [typNumber]\<rparr>)"
    using d by (simp add: Token_def)
  have 3: "Token F dec (c\<lparr>decoder := d2, types := types c @ [typNumber]\<rparr>)
           = (Inr (EndElement (Name [] ''number'')), c\<lparr>decoder := d2\<rparr>)"
    using d by (simp add: Token_def outputEnd_def)
  from 1 2 3 show ?thesis by simp
qed

section \<open>The claims\<close>

text \<open>
  C1, as stated: in a state whose top of stack is an open object, a pulled
  array-close makes \<^verbatim>\<open>Token\<close> fail with \<^verbatim>\<open>ErrInvalidToken\<close>. It does not
  hold: after the tokens \<open>{\<close> and \<open>]\<close> the array-close is pulled where a key
  is expected, the test of line 121 sends it to the key check, and the call
  fails with \<^verbatim>\<open>ErrInvalidKey\<close>.
\<close>

theorem Token_array_close_counterexample:
  "Token plainFormat sliceDecoder (NewConverter [JDelim CHR ''{'', JDelim CHR '']''])
     = (Inr (StartElement (Name [] ''object'') []),
        \<lparr>decoder = [JDelim CHR '']''], types = [typObject], data = None\<rparr>)
   \<and> Token plainFormat sliceDecoder \<lparr>decoder = [JDelim CHR '']''], types = [typObject], data = None\<rparr>
     = (Inl ErrInvalidKey, \<lparr>decoder = [], types = [typObject], data = None\<rparr>)
   \<and> ErrInvalidKey \<noteq> ErrInvalidToken"
  by (simp add: NewConverter_def Token_open_object) (simp add: Token_def)

text \<open>
  C1, amended: in a state whose top of stack is an open object and where the
  call pulls from the source, an array-close makes \<^verbatim>\<open>Token\<close> fail without an
  XML token and with the stack and the pending slot as they were: with
  \<^verbatim>\<open>ErrInvalidKey\<close> when it is the first token pulled (the key position), with
  \<^verbatim>\<open>ErrInvalidToken\<close> when it is the token pulled after a string key (the value
  position).
\<close>

theorem Token_array_close_in_object:
  assumes "data c = None" and "types c \<noteq> []" and "last (types c) = typObject"
  shows "(dec (decoder c) = (Inr (JDelim CHR '']''), d1) \<longrightarrow>
            Token F dec c = (Inl ErrInvalidKey, c\<lparr>decoder := d1\<rparr>))
       \<and> (dec (decoder c) = (Inr (JString k), d1) \<and> dec d1 = (Inr (JDelim CHR '']''), d2) \<longrightarrow>
            Token F dec c = (Inl ErrInvalidToken, c\<lparr>decoder := d2\<rparr>))"
  using assms by (simp add: Token_def tokenSwitch_def)

theorem Token_array_close_in_object_witness:
  "Token plainFormat sliceDecoder \<lparr>decoder = [JDelim CHR '']''], types = [typObject], data = None\<rparr>
     = (Inl ErrInvalidKey, \<lparr>decoder = [], types = [typObject], data = None\<rparr>)
   \<and> Token plainFormat sliceDecoder
        \<lparr>decoder = [JString ''a'', JDelim CHR '']''], types = [typObject], data = None\<rparr>
     = (Inl ErrInvalidToken, \<lparr>decoder = [], types = [typObject], data = None\<rparr>)"
  using Token_array_close_in_object
          [of "\<lparr>decoder = [JDelim CHR '']''], types = [typObject], data = None\<rparr>"
              sliceDecoder "[]" plainFormat "''a''" "[]"]
        Token_array_close_in_object
          [of "\<lparr>decoder = [JString ''a'', JDelim CHR '']''], types = [typObject], data = None\<rparr>"
              sliceDecoder "[JDelim CHR '']'']" plainFormat "''a''" "[]"]
  by simp

text \<open>
  C2: for every sequence of JSON values, \<^verbatim>\<open>Convert\<close> on their tokens followed
  by end-of-stream returns \<^verbatim>\<open>nil\<close> with an empty stack, and the XML tokens
  it has sent hold as many start elements as end elements, every end element
  carrying the name of the most recent unmatched start element.
\<close>

theorem Convert_balanced:
  "\<exists>out. Convert F sliceDecoder collect (concat (map tokens vs)) []
            = Some (None, \<lparr>decoder = [], types = [], data = None\<rparr>, out)
        \<and> countStart out = countEnd out \<and> lifo [] out"
proof -
  let ?out = "concat (map (xmlOf F None) vs)"
  have "countStart ?out = countEnd ?out"
    by (rule count_concat) (rule count_xmlOf)
  moreover have "lifo [] (?out @ []) = lifo [] []"
    by (rule lifo_concat) (rule lifo_xmlOf)
  ultimately show ?thesis using Convert_documents [of F vs] by simp
qed

theorem Convert_balanced_witness:
  "\<exists>out. Convert plainFormat sliceDecoder collect
            [JDelim CHR ''{'', JString ''Location'', JDelim CHR ''{'',
             JString ''Longitude'', JNumber ''-1.8262'', JString ''Latitude'', JNumber ''51.1789'',
             JDelim CHR ''}'', JString ''tags'', JDelim CHR ''['', JBool True, JNil, JDelim CHR '']'',
             JDelim CHR ''}''] []
            = Some (None, \<lparr>decoder = [], types = [], data = None\<rparr>, out)
        \<and> countStart out = countEnd out \<and> lifo [] out"
  using Convert_balanced
          [of plainFormat
              "[VObject [(''Location'', VObject [(''Longitude'', VNumber ''-1.8262''),
                                                 (''Latitude'', VNumber ''51.1789'')]),
                         (''tags'', VArray [VBool True, VNull])]]"]
  by simp

text \<open>
  C3, as stated: with an open object on top, when the token pulled after a
  string key does not start a value, \<^verbatim>\<open>Token\<close> fails with
  \<^verbatim>\<open>ErrInvalidToken\<close> or \<^verbatim>\<open>ErrInvalidKey\<close> and sends no XML token. It does
  not hold: a token of an unknown type after the key fails with
  \<^verbatim>\<open>ErrUnknownToken\<close> (line 173), and an object-close after the key passes
  the test of line 143 and comes out as the end element of the object.
\<close>

theorem Token_after_key_counterexample:
  "Token plainFormat sliceDecoder \<lparr>decoder = [JString ''a'', JOther], types = [typObject], data = None\<rparr>
     = (Inl ErrUnknownToken, \<lparr>decoder = [], types = [typObject], data = None\<rparr>)
   \<and> ErrUnknownToken \<noteq> ErrInvalidToken \<and> ErrUnknownToken \<noteq> ErrInvalidKey
   \<and> valueStart JOther = False
   \<and> Token plainFormat sliceDecoder
        \<lparr>decoder = [JString ''a'', JDelim CHR ''}''], types = [typObject], data = None\<rparr>
     = (Inr (EndElement (Name [] ''object'')), \<lparr>decoder = [], types = [], data = None\<rparr>)
   \<and> valueStart (JDelim CHR ''}'') = False"
  by (simp add: Token_def tokenSwitch_def outputEnd_def)

text \<open>
  C3, amended: with an open object on top, when the token pulled after a
  string key neither starts a value nor is the object-close, \<^verbatim>\<open>Token\<close> fails
  without an XML token and with the stack and the pending slot as they were:
  with \<^verbatim>\<open>ErrInvalidToken\<close> for an array-close, with \<^verbatim>\<open>ErrUnknownToken\<close>
  for every other token.
\<close>

theorem Token_after_key_not_value:
  assumes "data c = None" and "types c \<noteq> []" and "last (types c) = typObject"
    and "dec (decoder c) = (Inr (JString k), d1)" and "dec d1 = (Inr token, d2)"
    and "valueStart token = False" and "token \<noteq> JDelim CHR ''}''"
  shows "Token F dec c
           = (Inl (if token = JDelim CHR '']'' then ErrInvalidToken else ErrUnknownToken),
              c\<lparr>decoder := d2\<rparr>)"
  using assms by (cases token) (auto simp: Token_def tokenSwitch_def split: if_splits)

theorem Token_after_key_not_value_witness:
  "Token plainFormat sliceDecoder
        \<lparr>decoder = [JString ''a'', JDelim CHR '']''], types = [typObject], data = None\<rparr>
     = (Inl ErrInvalidToken, \<lparr>decoder = [], types = [typObject], data = None\<rparr>)
   \<and> Token plainFormat sliceDecoder
        \<lparr>decoder = [JString ''a'', JDelim CHR '':''], types = [typObject], data = None\<rparr>
     = (Inl ErrUnknownToken, \<lparr>decoder = [], types = [typObject], data = None\<rparr>)"
  using Token_after_key_not_value
          [of "\<lparr>decoder = [JString ''a'', JDelim CHR '']''], types = [typObject], data = None\<rparr>"
              sliceDecoder "''a''" "[JDelim CHR '']'']" "JDelim CHR '']''" "[]" plainFormat]
        Token_after_key_not_value
          [of "\<lparr>decoder = [JString ''a'', JDelim CHR '':''], types = [typObject], data = None\<rparr>"
              sliceDecoder "''a''" "[JDelim CHR '':'']" "JDelim CHR '':''" "[]" plainFormat]
  by simp

text \<open>
  C4: a call made while the pending slot is set returns that text as character
  data and clears the slot; the source is not touched, whatever it is. A call
  that reads a scalar token at a value position returns the start element of
  its type and sets the slot to the text of the token, and the next call
  returns exactly that text. Every call that returns the start element of a
  boolean, a number or a string is such a call.
\<close>

theorem Token_pending_chardata:
  "(data c = Some d \<longrightarrow> Token F dec c = (Inr (CharData d), c\<lparr>data := None\<rparr>))
   \<and> (pullsValue dec c keyName token d2 \<and> scalarType token = Some typ \<longrightarrow>
        Token F dec c
          = (Inr (StartElement (Name [] (ttypeNames typ)) (nameAttr keyName)),
             c\<lparr>decoder := d2, types := types c @ [typ], data := Some (scalarText F token)\<rparr>)
        \<and> Token F dec' (c\<lparr>decoder := d2, types := types c @ [typ], data := Some (scalarText F token)\<rparr>)
          = (Inr (CharData (scalarText F token)),
             c\<lparr>decoder := d2, types := types c @ [typ], data := None\<rparr>))
   \<and> (Token F dec c = (Inr (StartElement n a), c1)
        \<and> (Local n = ''boolean'' \<or> Local n = ''number'' \<or> Local n = ''string'')
      \<longrightarrow> (\<exists>kn t d3 ty. pullsValue dec c kn t d3 \<and> scalarType t = Some ty
              \<and> data c1 = Some (scalarText F t)
              \<and> Token F dec' c1 = (Inr (CharData (scalarText F t)), c1\<lparr>data := None\<rparr>)))"
proof (intro conjI impI)
  assume "data c = Some d"
  then show "Token F dec c = (Inr (CharData d), c\<lparr>data := None\<rparr>)" by (rule Token_pending)
next
  assume a: "pullsValue dec c keyName token d2 \<and> scalarType token = Some typ"
  from a have pv: "pullsValue dec c keyName token d2" and st: "scalarType token = Some typ"
    by simp_all
  from Token_pullsValue [OF pv, of F] tokenSwitch_scalar [OF st, of F keyName "c\<lparr>decoder := d2\<rparr>"]
  show "Token F dec c
          = (Inr (StartElement (Name [] (ttypeNames typ)) (nameAttr keyName)),
             c\<lparr>decoder := d2, types := types c @ [typ], data := Some (scalarText F token)\<rparr>)"
    by simp
next
  assume a: "pullsValue dec c keyName token d2 \<and> scalarType token = Some typ"
  show "Token F dec' (c\<lparr>decoder := d2, types := types c @ [typ], data := Some (scalarText F token)\<rparr>)
          = (Inr (CharData (scalarText F token)),
             c\<lparr>decoder := d2, types := types c @ [typ], data := None\<rparr>)"
    by (simp add: Token_def)
next
  assume a: "Token F dec c = (Inr (StartElement n a), c1)
        \<and> (Local n = ''boolean'' \<or> Local n = ''number'' \<or> Local n = ''string'')"
  then have t: "Token F dec c = (Inr (StartElement n a), c1)"
    and sc: "Local n = ''boolean'' \<or> Local n = ''number'' \<or> Local n = ''string''" by simp_all
  from Token_start_pulls [OF t]
  obtain kn tok d3 where pv: "pullsValue dec c kn tok d3"
    and sw: "tokenSwitch F tok kn (c\<lparr>decoder := d3\<rparr>) = (Inr (StartElement n a), c1)"
    by blast
  from tokenSwitch_start_text [OF sw sc] obtain ty where ty: "scalarType tok = Some ty" ..
  from sw tokenSwitch_scalar [OF ty, of F kn "c\<lparr>decoder := d3\<rparr>"]
  have c1: "c1 = c\<lparr>decoder := d3, types := types c @ [ty], data := Some (scalarText F tok)\<rparr>"
    by simp
  then have dat: "data c1 = Some (scalarText F tok)" by simp
  from Token_pending [OF dat]
  have "Token F dec' c1 = (Inr (CharData (scalarText F tok)), c1\<lparr>data := None\<rparr>)" .
  with pv ty dat
  show "\<exists>kn t d3 ty. pullsValue dec c kn t d3 \<and> scalarType t = Some ty
              \<and> data c1 = Some (scalarText F t)
              \<and> Token F dec' c1 = (Inr (CharData (scalarText F t)), c1\<lparr>data := None\<rparr>)"
    by blast
qed

theorem Token_pending_chardata_witness:
  "Token plainFormat sliceDecoder \<lparr>decoder = [JNil], types = [typString], data = Some ''x''\<rparr>
     = (Inr (CharData ''x''), \<lparr>decoder = [JNil], types = [typString], data = None\<rparr>)
   \<and> Token plainFormat sliceDecoder
        \<lparr>decoder = [JString ''k'', JBool True, JNil], types = [typObject], data = None\<rparr>
     = (Inr (StartElement (Name [] ''boolean'') [Attr (Name [] ''name'') ''k'']),
        \<lparr>decoder = [JNil], types = [typObject, typBool], data = Some ''true''\<rparr>)
   \<and> Token plainFormat sliceDecoder
        \<lparr>decoder = [JNil], types = [typObject, typBool], data = Some ''true''\<rparr>
     = (Inr (CharData ''true''), \<lparr>decoder = [JNil], types = [typObject, typBool], data = None\<rparr>)
   \<and> (\<exists>kn t d3 ty.
         pullsValue sliceDecoder
           \<lparr>decoder = [JString ''k'', JBool True, JNil], types = [typObject], data = None\<rparr> kn t d3
         \<and> scalarType t = Some ty
         \<and> Some ''true'' = Some (scalarText plainFormat t))"
proof -
  from Token_pending_chardata
         [of "\<lparr>decoder = [JNil], types = [typString], data = Some ''x''\<rparr>" "''x''"
             plainFormat sliceDecoder]
  have 1: "Token plainFormat sliceDecoder \<lparr>decoder = [JNil], types = [typString], data = Some ''x''\<rparr>
     = (Inr (CharData ''x''), \<lparr>decoder = [JNil], types = [typString], data = None\<rparr>)"
    by simp
  note inst = Token_pending_chardata
         [of "\<lparr>decoder = [JString ''k'', JBool True, JNil], types = [typObject], data = None\<rparr>"
             "''x''" plainFormat sliceDecoder "Some ''k''" "JBool True" "[JNil]" typBool sliceDecoder
             "Name [] ''boolean''" "[Attr (Name [] ''name'') ''k'']"
             "\<lparr>decoder = [JNil], types = [typObject, typBool], data = Some ''true''\<rparr>"]
  from inst
  have 2: "Token plainFormat sliceDecoder
        \<lparr>decoder = [JString ''k'', JBool True, JNil], types = [typObject], data = None\<rparr>
     = (Inr (StartElement (Name [] ''boolean'') [Attr (Name [] ''name'') ''k'']),
        \<lparr>decoder = [JNil], types = [typObject, typBool], data = Some ''true''\<rparr>)
   \<and> Token plainFormat sliceDecoder
        \<lparr>decoder = [JNil], types = [typObject, typBool], data = Some ''true''\<rparr>
     = (Inr (CharData ''true''), \<lparr>decoder = [JNil], types = [typObject, typBool], data = None\<rparr>)"
    by (simp add: nameAttr_def)
  from inst 2
  have 3: "\<exists>kn t d3 ty.
         pullsValue sliceDecoder
           \<lparr>decoder = [JString ''k'', JBool True, JNil], types = [typObject], data = None\<rparr> kn t d3
         \<and> scalarType t = Some ty
         \<and> Some ''true'' = Some (scalarText plainFormat t)"
    by simp
  from 1 2 3 show ?thesis by blast
qed

text \<open>
  C5: on the single token \<^verbatim>\<open>nil\<close>, the first call returns the start element
  \<open>null\<close> and leaves the pending slot empty, the second returns the end
  element \<open>null\<close>, and \<^verbatim>\<open>Convert\<close> sends exactly these two tokens and
  returns \<^verbatim>\<open>nil\<close>.
\<close>

theorem Convert_null:
  "Token F sliceDecoder (NewConverter [JNil])
     = (Inr (StartElement (Name [] ''null'') []), \<lparr>decoder = [], types = [typNull], data = None\<rparr>)
   \<and> Token F sliceDecoder \<lparr>decoder = [], types = [typNull], data = None\<rparr>
     = (Inr (EndElement (Name [] ''null'')), \<lparr>decoder = [], types = [], data = None\<rparr>)
   \<and> Convert F sliceDecoder collect [JNil] []
     = Some (None, \<lparr>decoder = [], types = [], data = None\<rparr>,
             [StartElement (Name [] ''null'') [], EndElement (Name [] ''null'')])"
proof -
  have 1: "Token F sliceDecoder \<lparr>decoder = [JNil], types = [], data = None\<rparr>
     = (Inr (StartElement (Name [] ''null'') []), \<lparr>decoder = [], types = [typNull], data = None\<rparr>)"
    using Token_value [of "[]" None F JNil "[]"] by (simp add: switch_start nameAttr_def)
  have 2: "Token F sliceDecoder \<lparr>decoder = [], types = [typNull], data = None\<rparr>
     = (Inr (EndElement (Name [] ''null'')), \<lparr>decoder = [], types = [], data = None\<rparr>)"
    using Token_end [of typNull F sliceDecoder "[]" "[]"] by simp
  have 3: "Token F sliceDecoder \<lparr>decoder = [], types = [], data = None\<rparr>
     = (Inl EOF, \<lparr>decoder = [], types = [], data = None\<rparr>)"
    by (simp add: Token_def)
  have "Convert F sliceDecoder collect [JNil] []
      = Convert_loop F sliceDecoder collect \<lparr>decoder = [], types = [typNull], data = None\<rparr>
          [StartElement (Name [] ''null'') []]"
    unfolding Convert_def using step_collect [OF 1, of "[]"] by simp
  also have "\<dots> = Convert_loop F sliceDecoder collect \<lparr>decoder = [], types = [], data = None\<rparr>
          [StartElement (Name [] ''null'') [], EndElement (Name [] ''null'')]"
    using step_collect [OF 2, of "[StartElement (Name [] ''null'') []]"] by simp
  also have "\<dots> = Some (None, \<lparr>decoder = [], types = [], data = None\<rparr>,
             [StartElement (Name [] ''null'') [], EndElement (Name [] ''null'')])"
    using loop_returns [OF 3] by simp
  finally show ?thesis using 1 2 by (simp add: NewConverter_def)
qed

theorem Convert_null_witness:
  "Convert plainFormat sliceDecoder collect [JNil] []
     = Some (None, \<lparr>decoder = [], types = [], data = None\<rparr>,
             [StartElement (Name [] ''null'') [], EndElement (Name [] ''null'')])"
  using Convert_null [of plainFormat] by simp

text \<open>
  C6: when a call returns a start element, the element has the one attribute
  \<open>name\<close>, holding the key string that the call pulled, if an object is on top
  of the stack at the call, and no attribute otherwise (top level or array).
\<close>

theorem Token_name_attribute:
  assumes "Token F dec c = (Inr (StartElement n a), c1)"
  shows "if types c \<noteq> [] \<and> last (types c) = typObject
         then \<exists>k d1. dec (decoder c) = (Inr (JString k), d1) \<and> a = [Attr (Name [] ''name'') k]
         else a = []"
proof (cases "types c \<noteq> [] \<and> last (types c) = typObject")
  case True
  with Token_start_cases [OF assms]
  obtain k d1 token d2 where k: "dec (decoder c) = (Inr (JString k), d1)"
    and sw: "tokenSwitch F token (Some k) (c\<lparr>decoder := d2\<rparr>) = (Inr (StartElement n a), c1)"
    by auto
  from tokenSwitch_start_attr [OF sw] have "a = [Attr (Name [] ''name'') k]"
    by (simp add: nameAttr_def)
  with True k show ?thesis by simp
next
  case False
  with Token_start_cases [OF assms]
  obtain token d1 where
    sw: "tokenSwitch F token None (c\<lparr>decoder := d1\<rparr>) = (Inr (StartElement n a), c1)"
    by auto
  from tokenSwitch_start_attr [OF sw] have "a = []" by (simp add: nameAttr_def)
  with False show ?thesis by simp
qed

theorem Token_name_attribute_witness:
  "Token plainFormat sliceDecoder
     \<lparr>decoder = [JString ''Longitude'', JNumber ''-1.8262''], types = [typObject], data = None\<rparr>
     = (Inr (StartElement (Name [] ''number'') [Attr (Name [] ''name'') ''Longitude'']),
        \<lparr>decoder = [], types = [typObject, typNumber], data = Some ''-1.8262''\<rparr>)
   \<and> (\<exists>k d1. sliceDecoder [JString ''Longitude'', JNumber ''-1.8262''] = (Inr (JString k), d1)
         \<and> [Attr (Name [] ''name'') ''Longitude''] = [Attr (Name [] ''name'') k])"
proof -
  have h: "Token plainFormat sliceDecoder
     \<lparr>decoder = [JString ''Longitude'', JNumber ''-1.8262''], types = [typObject], data = None\<rparr>
     = (Inr (StartElement (Name [] ''number'') [Attr (Name [] ''name'') ''Longitude'']),
        \<lparr>decoder = [], types = [typObject, typNumber], data = Some ''-1.8262''\<rparr>)"
    using Token_value [of "[typObject]" "Some ''Longitude''" plainFormat "JNumber ''-1.8262''" "[]"]
    by (simp add: switch_start nameAttr_def)
  show ?thesis using h Token_name_attribute [OF h] by simp
qed

text \<open>
  C8: with an open object on top, when the token pulled is neither the
  object-close nor a string, \<^verbatim>\<open>Token\<close> fails with \<^verbatim>\<open>ErrInvalidKey\<close>.
\<close>

theorem Token_key_not_string:
  assumes "data c = None" and "types c \<noteq> []" and "last (types c) = typObject"
    and "dec (decoder c) = (Inr token, d1)"
    and "token \<noteq> JDelim CHR ''}''" and "\<forall>s. token \<noteq> JString s"
  shows "Token F dec c = (Inl ErrInvalidKey, c\<lparr>decoder := d1\<rparr>)"
  using assms by (cases token) (simp_all add: Token_def)

theorem Token_key_not_string_witness:
  "Token plainFormat sliceDecoder \<lparr>decoder = [JNumber ''1'', JNil], types = [typObject], data = None\<rparr>
     = (Inl ErrInvalidKey, \<lparr>decoder = [JNil], types = [typObject], data = None\<rparr>)"
  using Token_key_not_string
          [of "\<lparr>decoder = [JNumber ''1'', JNil], types = [typObject], data = None\<rparr>"
              sliceDecoder "JNumber ''1''" "[JNil]" plainFormat]
  by simp

text \<open>
  C9: when the source signals \<^verbatim>\<open>io.EOF\<close>, at the first pull of a call or
  at the pull after a key, the loop of \<^verbatim>\<open>Convert\<close> returns \<^verbatim>\<open>nil\<close>
  whatever the stack holds: it is not looked at. The witness is a stream cut
  off after \<open>{\<close>.
\<close>

theorem Convert_EOF_unclosed:
  assumes "data c = None"
    and "types c = [] \<or> last (types c) = typObject \<or> last (types c) = typArray"
    and "dec (decoder c) = (Inl EOF, d1)
         \<or> (types c \<noteq> [] \<and> last (types c) = typObject
            \<and> dec (decoder c) = (Inr (JString k), d0) \<and> dec d0 = (Inl EOF, d1))"
  shows "Convert_loop F dec enc c x = Some (None, c\<lparr>decoder := d1\<rparr>, x)"
proof -
  from assms(3) have "Token F dec c = (Inl EOF, c\<lparr>decoder := d1\<rparr>)"
  proof
    assume "dec (decoder c) = (Inl EOF, d1)"
    with assms(1,2) show ?thesis by (rule Token_pull_error)
  next
    assume "types c \<noteq> [] \<and> last (types c) = typObject
            \<and> dec (decoder c) = (Inr (JString k), d0) \<and> dec d0 = (Inl EOF, d1)"
    with assms(1) show ?thesis by (simp add: Token_key_pull_error)
  qed
  from loop_returns [OF this] show ?thesis by simp
qed

theorem Convert_EOF_unclosed_witness:
  "Convert plainFormat sliceDecoder collect [JDelim CHR ''{''] []
     = Some (None, \<lparr>decoder = [], types = [typObject], data = None\<rparr>,
             [StartElement (Name [] ''object'') []])"
proof -
  have "Convert plainFormat sliceDecoder collect [JDelim CHR ''{''] []
      = Convert_loop plainFormat sliceDecoder collect
          \<lparr>decoder = [], types = [typObject], data = None\<rparr> [StartElement (Name [] ''object'') []]"
    unfolding Convert_def using step_collect [OF Token_open_object, of plainFormat "[]" "[]"] by simp
  also have "\<dots> = Some (None, \<lparr>decoder = [], types = [typObject], data = None\<rparr>,
             [StartElement (Name [] ''object'') []])"
    using Convert_EOF_unclosed
            [of "\<lparr>decoder = [], types = [typObject], data = None\<rparr>" sliceDecoder "[]"
                "''k''" "[]" plainFormat collect "[StartElement (Name [] ''object'') []]"]
    by simp
  finally show ?thesis .
qed

text \<open>
  C10: when \<^verbatim>\<open>Token\<close> returns an error, the stack and the pending slot
  are what they were before the call.
\<close>

theorem Token_error_keeps_state:
  assumes "fst (Token F dec c) = Inl e"
  shows "types (snd (Token F dec c)) = types c \<and> data (snd (Token F dec c)) = data c"
proof -
  obtain c1 where "Token F dec c = (Inl e, c1)" using assms by (cases "Token F dec c") simp
  from Token_error_cases [OF this] this show ?thesis by simp
qed

theorem Token_error_keeps_state_witness:
  "fst (Token plainFormat sliceDecoder \<lparr>decoder = [JDelim CHR '']''], types = [], data = None\<rparr>)
     = Inl ErrInvalidToken
   \<and> types (snd (Token plainFormat sliceDecoder \<lparr>decoder = [JDelim CHR '']''], types = [], data = None\<rparr>)) = []
   \<and> data (snd (Token plainFormat sliceDecoder \<lparr>decoder = [JDelim CHR '']''], types = [], data = None\<rparr>)) = None"
proof -
  have h: "fst (Token plainFormat sliceDecoder \<lparr>decoder = [JDelim CHR '']''], types = [], data = None\<rparr>)
     = Inl ErrInvalidToken"
    by (simp add: Token_def tokenSwitch_def)
  show ?thesis using h Token_error_keeps_state [OF h] by simp
qed

end
